theory Spec2Isabelle
  imports Complex_Main "HOL-Library.Word"
begin

section \<open>Errors\<close>

text \<open>
  The JavaScript sources signal failure by \<^verbatim>\<open>throw new Error(message)\<close>; the library calls
  they make (ethers, \<^verbatim>\<open>JSON.stringify\<close>, string conversion) throw errors of their own.
  A throwing function is modelled with result type \<open>error + 'a\<close>, \<open>Inl\<close> carrying the error.
  The error kinds of the specification are the messages the source throws.
\<close>

datatype error =
    Error string            \<comment> \<open>\<^verbatim>\<open>throw new Error(msg)\<close> in the source\<close>
  | ArgumentError string    \<comment> \<open>thrown inside ethers (\<^verbatim>\<open>logger.throwArgumentError\<close>)\<close>
  | TypeError               \<comment> \<open>thrown by a JavaScript built-in\<close>

definition EmptyLeafSet :: error where
  "EmptyLeafSet = Error ''Empty proofs array''"

definition IndexOutOfRange :: error where
  "IndexOutOfRange = Error ''Leaf index out of bounds''"

definition UnsupportedPayloadFormat :: error where
  "UnsupportedPayloadFormat = Error ''Unsupported proof data format''"

section \<open>The ethers utilities\<close>

text \<open>
  Hashes travel through the JavaScript sources as hex strings. \<^verbatim>\<open>ethers.utils.arrayify\<close>
  decodes one: the string has to match \<^verbatim>\<open>/^0x[0-9A-Fa-f]*$/\<close> and hold an even number of
  digits, otherwise the library throws an argument error. \<^verbatim>\<open>hexlify\<close> writes bytes as
  lower-case hex and \<^verbatim>\<open>toUtf8Bytes\<close> gives the UTF-8 bytes of a string.
\<close>

definition hexValue :: "char \<Rightarrow> nat option" where
  "hexValue c =
     (let n = (of_char c :: nat) in
      if 48 \<le> n \<and> n \<le> 57 then Some (n - 48)
      else if 97 \<le> n \<and> n \<le> 102 then Some (n - 87)
      else if 65 \<le> n \<and> n \<le> 70 then Some (n - 55)
      else None)"

definition isHexString :: "string \<Rightarrow> bool" where
  "isHexString s = (take 2 s = ''0x'' \<and> list_all (\<lambda>c. hexValue c \<noteq> None) (drop 2 s))"

fun hexBytes :: "string \<Rightarrow> 8 word list" where
  "hexBytes (hi # lo # rest) =
     of_nat (16 * (case hexValue hi of Some n \<Rightarrow> n | None \<Rightarrow> 0)
               + (case hexValue lo of Some n \<Rightarrow> n | None \<Rightarrow> 0)) # hexBytes rest"
| "hexBytes rest = []"

definition arrayify :: "string \<Rightarrow> error + 8 word list" where
  "arrayify s =
     (if isHexString s then
        (if length (drop 2 s) mod 2 \<noteq> 0 then Inl (ArgumentError ''hex data is odd-length'')
         else Inr (hexBytes (drop 2 s)))
      else Inl (ArgumentError ''invalid arrayify value''))"

definition hexChar :: "nat \<Rightarrow> char" where
  "hexChar n = ''0123456789abcdef'' ! (n mod 16)"

definition hexlify :: "8 word list \<Rightarrow> string" where
  "hexlify bs = ''0x'' @ concat (map (\<lambda>b. [hexChar (unat b div 16), hexChar (unat b mod 16)]) bs)"

definition toUtf8Bytes :: "string \<Rightarrow> 8 word list" where
  "toUtf8Bytes s = map of_char s"

text \<open>
  \<^verbatim>\<open>ethers.utils.solidityKeccak256(['bytes32', 'bytes32'], [x, y])\<close> decodes both arguments,
  throws unless each holds exactly 32 bytes, and returns the Keccak-256 digest of the 64
  bytes as a lower-case hex string. The digest function itself is a parameter \<open>K\<close>; its value
  is a 256-bit word, written out as 32 bytes, most significant byte first.
\<close>

definition word_bytes32 :: "256 word \<Rightarrow> 8 word list" where
  "word_bytes32 w = map (\<lambda>i. ucast (drop_bit (8 * (31 - i)) w)) [0..<32]"

definition bytes32 :: "string \<Rightarrow> error + 8 word list" where
  "bytes32 v =
     (case arrayify v of Inl e \<Rightarrow> Inl e
      | Inr bs \<Rightarrow> if length bs \<noteq> 32 then Inl (Error ''invalid value for bytes32'') else Inr bs)"

definition solidityKeccak256 ::
  "(8 word list \<Rightarrow> 256 word) \<Rightarrow> string \<Rightarrow> string \<Rightarrow> error + string" where
  "solidityKeccak256 K x y =
     (case bytes32 x of Inl e \<Rightarrow> Inl e
      | Inr bx \<Rightarrow>
         (case bytes32 y of Inl e \<Rightarrow> Inl e
          | Inr by \<Rightarrow> Inr (hexlify (word_bytes32 (K (bx @ by))))))"

text \<open>
  A well-typed hash is a string that \<^verbatim>\<open>solidityKeccak256\<close> accepts as \<^verbatim>\<open>bytes32\<close>; upper-case
  and lower-case digits are both accepted. \<open>pairHash K x y\<close> is the string that
  \<^verbatim>\<open>solidityKeccak256\<close> returns on two well-typed hashes (lemma
  \<open>solidityKeccak256_pairHash\<close> below).
\<close>

definition isBytes32 :: "string \<Rightarrow> bool" where
  "isBytes32 s = (isHexString s \<and> length s = 66)"

definition pairHash :: "(8 word list \<Rightarrow> 256 word) \<Rightarrow> string \<Rightarrow> string \<Rightarrow> string" where
  "pairHash K x y = hexlify (word_bytes32 (K (hexBytes (drop 2 x) @ hexBytes (drop 2 y))))"

section \<open>Commitment tree engine (\<^verbatim>\<open>src/SnarktorVerificationClient.js\<close>)\<close>

text \<open>
  \<^verbatim>\<open>buildMerkleTree\<close> and \<^verbatim>\<open>generateMerkleProof\<close> move hashes around and combine them, but
  never compare or inspect them. They are modelled over an arbitrary type \<open>'h\<close> of hash
  values and a parameter \<open>H\<close> for the library call
  \<^verbatim>\<open>ethers.utils.solidityKeccak256(['bytes32', 'bytes32'], [x, y])\<close>, which returns on every
  pair of well-typed hashes; the code on hex strings is the instance \<open>H = pairHash K\<close>.
  \<^verbatim>\<open>verifyMerkleProof\<close> compares the folded value with the root by \<^verbatim>\<open>===\<close> on strings, so it
  is modelled on hex strings, with the library call as it is.
\<close>

subsection \<open>The inner \<^verbatim>\<open>for\<close> loop that builds the next level\<close>

text \<open>
  \<^verbatim>\<open>for (let i = 0; i < currentLevel.length; i += 2)\<close>, pushing onto \<^verbatim>\<open>nextLevel\<close>.
  Both reads happen under the guards \<open>i < length\<close> and \<open>i + 1 < length\<close>.
\<close>

function nextLevel_loop :: "('h \<Rightarrow> 'h \<Rightarrow> 'h) \<Rightarrow> 'h list \<Rightarrow> nat \<Rightarrow> 'h list \<Rightarrow> 'h list" where
  "nextLevel_loop H currentLevel i nextLevel =
     (if i < length currentLevel then
        (if i + 1 < length currentLevel then
           nextLevel_loop H currentLevel (i + 2)
             (nextLevel @ [H (currentLevel ! i) (currentLevel ! (i + 1))])
         else
           nextLevel_loop H currentLevel (i + 2) (nextLevel @ [currentLevel ! i]))
      else nextLevel)"
  by pat_completeness auto
termination
  by (relation "measure (\<lambda>(H, currentLevel, i, nextLevel). length currentLevel - i)") auto

declare nextLevel_loop.simps [simp del]

text \<open>The same level step, by structural recursion on the level: pair left to right, keep an
  unpaired last element as it is.\<close>

fun pairUp :: "('h \<Rightarrow> 'h \<Rightarrow> 'h) \<Rightarrow> 'h list \<Rightarrow> 'h list" where
  "pairUp H (x # y # xs) = H x y # pairUp H xs"
| "pairUp H xs = xs"

lemma nextLevel_loop_pairUp:
  "nextLevel_loop H cur i acc = acc @ pairUp H (drop i cur)"
proof (induction H cur i acc rule: nextLevel_loop.induct)
  case (1 H cur i acc)
  show ?case
  proof (cases "i < length cur")
    case False
    then show ?thesis by (simp add: nextLevel_loop.simps)
  next
    case True
    note lt = this
    show ?thesis
    proof (cases "i + 1 < length cur")
      case True
      have d: "drop i cur = cur ! i # cur ! (i + 1) # drop (i + 2) cur"
        using True by (metis Cons_nth_drop_Suc Suc_eq_plus1 add_2_eq_Suc' lt)
      show ?thesis
        using "1.IH"(1)[OF lt True] lt True
        by (subst nextLevel_loop.simps) (simp add: d)
    next
      case False
      have d: "drop i cur = [cur ! i]"
        using lt False by (metis Cons_nth_drop_Suc Suc_eq_plus1 drop_all not_less)
      have e: "drop (i + 2) cur = []" using False by simp
      show ?thesis
        using "1.IH"(2)[OF lt False] lt False
        by (subst nextLevel_loop.simps) (simp add: d e)
    qed
  qed
qed

lemma length_pairUp: "length (pairUp H xs) = (length xs + 1) div 2"
  by (induction H xs rule: pairUp.induct) auto

lemma nextLevel_eq: "nextLevel_loop H cur 0 [] = pairUp H cur"
  by (simp add: nextLevel_loop_pairUp)

lemma length_nextLevel: "length (nextLevel_loop H cur 0 []) = (length cur + 1) div 2"
  by (simp add: nextLevel_eq length_pairUp)

subsection \<open>\<^verbatim>\<open>buildMerkleTree\<close>\<close>

text \<open>The \<^verbatim>\<open>while (currentLevel.length > 1)\<close> loop; it returns the last level.\<close>

function buildMerkleTree_loop :: "('h \<Rightarrow> 'h \<Rightarrow> 'h) \<Rightarrow> 'h list \<Rightarrow> 'h list" where
  "buildMerkleTree_loop H currentLevel =
     (if length currentLevel > 1 then
        buildMerkleTree_loop H (nextLevel_loop H currentLevel 0 [])
      else currentLevel)"
  by pat_completeness auto
termination
  by (relation "measure (\<lambda>(H, currentLevel). length currentLevel)")
     (auto simp: length_nextLevel)

declare buildMerkleTree_loop.simps [simp del]

definition buildMerkleTree :: "('h \<Rightarrow> 'h \<Rightarrow> 'h) \<Rightarrow> 'h list \<Rightarrow> error + 'h" where
  "buildMerkleTree H proofHashes =
     (if length proofHashes = 0 then Inl EmptyLeafSet
      else if length proofHashes = 1 then Inr (proofHashes ! 0)
      else (let currentLevel = buildMerkleTree_loop H proofHashes
            in Inr (currentLevel ! 0)))"

lemma length_buildMerkleTree_loop:
  "xs \<noteq> [] \<Longrightarrow> length (buildMerkleTree_loop H xs) = 1"
proof (induction H xs rule: buildMerkleTree_loop.induct)
  case (1 H xs)
  show ?case
  proof (cases "length xs > 1")
    case True
    have "length (nextLevel_loop H xs 0 []) > 0"
      using True by (simp add: length_nextLevel)
    then have "nextLevel_loop H xs 0 [] \<noteq> []"
      by auto
    with "1.IH"[OF True] True show ?thesis
      by (subst buildMerkleTree_loop.simps) simp
  next
    case False
    with "1.prems" have "length xs = 1"
      by (cases xs) auto
    with False show ?thesis
      by (subst buildMerkleTree_loop.simps) simp
  qed
qed

subsection \<open>\<^verbatim>\<open>generateMerkleProof\<close>\<close>

record 'h merkle_proof =
  path :: "'h list"
  index :: nat
  leaf :: 'h

text \<open>
  The \<^verbatim>\<open>while\<close> loop of \<^verbatim>\<open>generateMerkleProof\<close>: the state is the current level, the
  running index and the path collected so far. The read at \<open>idx + 1\<close> is guarded; the read at
  \<open>idx - 1\<close> is in range whenever \<open>idx\<close> is (lemma \<open>generateMerkleProof_loop_index\<close> below
  shows the running index stays inside the level).
\<close>

function generateMerkleProof_loop ::
  "('h \<Rightarrow> 'h \<Rightarrow> 'h) \<Rightarrow> 'h list \<Rightarrow> nat \<Rightarrow> 'h list \<Rightarrow> 'h list" where
  "generateMerkleProof_loop H currentLevel idx pth =
     (if length currentLevel > 1 then
        (let pth' = (if idx mod 2 = 0 then
                       (if idx + 1 < length currentLevel
                        then pth @ [currentLevel ! (idx + 1)] else pth)
                     else pth @ [currentLevel ! (idx - 1)]);
             nextLevel = nextLevel_loop H currentLevel 0 []
         in generateMerkleProof_loop H nextLevel (idx div 2) pth')
      else pth)"
  by pat_completeness auto
termination
  by (relation "measure (\<lambda>(H, currentLevel, idx, pth). length currentLevel)")
     (auto simp: length_nextLevel)

declare generateMerkleProof_loop.simps [simp del]

definition generateMerkleProof ::
  "('h \<Rightarrow> 'h \<Rightarrow> 'h) \<Rightarrow> 'h list \<Rightarrow> nat \<Rightarrow> error + 'h merkle_proof" where
  "generateMerkleProof H proofHashes leafIndex =
     (if leafIndex \<ge> length proofHashes then Inl IndexOutOfRange
      else Inr \<lparr> path = generateMerkleProof_loop H proofHashes leafIndex [],
                 index = leafIndex,
                 leaf = proofHashes ! leafIndex \<rparr>)"

subsection \<open>\<^verbatim>\<open>verifyMerkleProof\<close>\<close>

text \<open>The \<^verbatim>\<open>for (let i = 0; i < path.length; i++)\<close> loop; the state is the loop counter, the
  running index and \<^verbatim>\<open>computedHash\<close>. A throw of the library call leaves the loop. The result
  is \<^verbatim>\<open>computedHash === root\<close>, equality of strings.\<close>

function verifyMerkleProof_loop ::
  "(8 word list \<Rightarrow> 256 word) \<Rightarrow> string list \<Rightarrow> nat \<Rightarrow> nat \<Rightarrow> string \<Rightarrow> error + string" where
  "verifyMerkleProof_loop K pth i idx computedHash =
     (if i < length pth then
        (let proofElement = pth ! i in
         if idx mod 2 = 0 then
           (case solidityKeccak256 K computedHash proofElement of
              Inl e \<Rightarrow> Inl e
            | Inr h \<Rightarrow> verifyMerkleProof_loop K pth (i + 1) (idx div 2) h)
         else
           (case solidityKeccak256 K proofElement computedHash of
              Inl e \<Rightarrow> Inl e
            | Inr h \<Rightarrow> verifyMerkleProof_loop K pth (i + 1) (idx div 2) h))
      else Inr computedHash)"
  by pat_completeness auto
termination
  by (relation "measure (\<lambda>(K, pth, i, idx, computedHash). length pth - i)") auto

declare verifyMerkleProof_loop.simps [simp del]

definition verifyMerkleProof ::
  "(8 word list \<Rightarrow> 256 word) \<Rightarrow> string list \<Rightarrow> nat \<Rightarrow> string \<Rightarrow> string \<Rightarrow> error + bool" where
  "verifyMerkleProof K pth idx lf rootHash =
     (case verifyMerkleProof_loop K pth 0 idx lf of
        Inl e \<Rightarrow> Inl e
      | Inr computedHash \<Rightarrow> Inr (computedHash = rootHash))"

text \<open>
  The verification rule in the words of the specification: starting from the leaf, for each
  sibling in path order, an even index combines \<open>hash(computed ++ sibling)\<close>, an odd index
  \<open>hash(sibling ++ computed)\<close>, and the index is halved.
\<close>

fun foldInclusionPath :: "('h \<Rightarrow> 'h \<Rightarrow> 'h) \<Rightarrow> 'h list \<Rightarrow> nat \<Rightarrow> 'h \<Rightarrow> 'h" where
  "foldInclusionPath H [] idx computed = computed"
| "foldInclusionPath H (sibling # siblings) idx computed =
     foldInclusionPath H siblings (idx div 2)
       (if even idx then H computed sibling else H sibling computed)"

text \<open>
  The siblings of an inclusion path in the words of the specification: at each level, an
  even index records the node at index + 1 if it exists, an odd index the node at
  index - 1; the next level pairs the nodes left to right and the index is halved.
\<close>

function inclusionSiblings :: "('h \<Rightarrow> 'h \<Rightarrow> 'h) \<Rightarrow> 'h list \<Rightarrow> nat \<Rightarrow> 'h list" where
  "inclusionSiblings H level idx =
     (if length level > 1 then
        (if even idx then (if idx + 1 < length level then [level ! (idx + 1)] else [])
         else [level ! (idx - 1)])
        @ inclusionSiblings H (pairUp H level) (idx div 2)
      else [])"
  by pat_completeness auto
termination
  by (relation "measure (\<lambda>(H, level, idx). length level)") (auto simp: length_pairUp)

declare inclusionSiblings.simps [simp del]

section \<open>The commitment tree engine on a heap of arrays\<close>

text \<open>
  JavaScript arrays are mutable objects passed by reference. To state what
  \<^verbatim>\<open>buildMerkleTree\<close> and \<^verbatim>\<open>generateMerkleProof\<close> do to the array they are given, the two
  functions are modelled a second time with an explicit heap: \<open>cells\<close> maps a reference to
  the contents of its array and \<open>fresh\<close> is the next unused reference. An array literal or
  a spread copy allocates, \<^verbatim>\<open>push\<close> updates a cell in place, and assigning an array variable
  copies the reference.
\<close>

record 'h array_heap =
  cells :: "nat \<Rightarrow> 'h list"
  fresh :: nat

definition new_array :: "'h list \<Rightarrow> 'h array_heap \<Rightarrow> nat \<times> 'h array_heap" where
  "new_array xs hp =
     (fresh hp, hp\<lparr> cells := (cells hp)(fresh hp := xs), fresh := Suc (fresh hp) \<rparr>)"

definition array_push :: "nat \<Rightarrow> 'h \<Rightarrow> 'h array_heap \<Rightarrow> 'h array_heap" where
  "array_push r x hp = hp\<lparr> cells := (cells hp)(r := cells hp r @ [x]) \<rparr>"

lemma length_cells_array_push:
  "length (cells (array_push r x hp) c) \<le> length (cells hp c) + 1"
  by (simp add: array_push_def)

text \<open>The inner \<^verbatim>\<open>for\<close> loop on the heap: it reads the array \<open>currentLevel\<close> and pushes onto the
  array \<open>nextLevel\<close>.\<close>

function nextLevel_loop_heap ::
  "('h \<Rightarrow> 'h \<Rightarrow> 'h) \<Rightarrow> nat \<Rightarrow> nat \<Rightarrow> nat \<Rightarrow> 'h array_heap \<Rightarrow> 'h array_heap" where
  "nextLevel_loop_heap H currentLevel nextLevel i hp =
     (if i < length (cells hp currentLevel) then
        (if i + 1 < length (cells hp currentLevel) then
           nextLevel_loop_heap H currentLevel nextLevel (i + 2)
             (array_push nextLevel
                (H (cells hp currentLevel ! i) (cells hp currentLevel ! (i + 1))) hp)
         else
           nextLevel_loop_heap H currentLevel nextLevel (i + 2)
             (array_push nextLevel (cells hp currentLevel ! i) hp))
      else hp)"
  by pat_completeness auto
termination
proof (relation "measure (\<lambda>(H, currentLevel, nextLevel, i, hp). length (cells hp currentLevel) - i)",
       goal_cases)
  case 1
  show ?case by simp
next
  case (2 H cur nxt i hp)
  have "length (cells (array_push nxt (H (cells hp cur ! i) (cells hp cur ! (i + 1))) hp) cur)
          \<le> length (cells hp cur) + 1"
    by (rule length_cells_array_push)
  with 2 show ?case by simp
next
  case (3 H cur nxt i hp)
  have "length (cells (array_push nxt (cells hp cur ! i) hp) cur) \<le> length (cells hp cur) + 1"
    by (rule length_cells_array_push)
  with 3 show ?case by simp
qed

declare nextLevel_loop_heap.simps [simp del]

text \<open>When the two references differ the heap loop computes what the loop on values computes.\<close>

lemma array_push_cells_other:
  "c \<noteq> r \<Longrightarrow> cells (array_push r x hp) c = cells hp c"
  by (simp add: array_push_def)

lemma array_push_cells_same:
  "cells (array_push r x hp) r = cells hp r @ [x]"
  by (simp add: array_push_def)

lemma array_push_overwritten:
  "(array_push r x hp)\<lparr> cells := (cells (array_push r x hp))(r := ys) \<rparr> =
   hp\<lparr> cells := (cells hp)(r := ys) \<rparr>"
  by (simp add: array_push_def)

lemma nextLevel_loop_heap_pure:
  "cur \<noteq> nxt \<Longrightarrow>
   nextLevel_loop_heap H cur nxt i hp =
     hp\<lparr> cells := (cells hp)(nxt := nextLevel_loop H (cells hp cur) i (cells hp nxt)) \<rparr>"
proof (induction H cur nxt i hp rule: nextLevel_loop_heap.induct)
  case (1 H cur nxt i hp)
  note ne = "1.prems"
  show ?case
  proof (cases "i < length (cells hp cur)")
    case False
    then show ?thesis
      by (subst nextLevel_loop_heap.simps, subst nextLevel_loop.simps) simp
  next
    case True
    note lt = this
    show ?thesis
    proof (cases "i + 1 < length (cells hp cur)")
      case True
      let ?x = "H (cells hp cur ! i) (cells hp cur ! (i + 1))"
      have "nextLevel_loop_heap H cur nxt i hp =
              nextLevel_loop_heap H cur nxt (i + 2) (array_push nxt ?x hp)"
        using lt True by (subst nextLevel_loop_heap.simps) simp
      also have "\<dots> = (array_push nxt ?x hp)\<lparr> cells := (cells (array_push nxt ?x hp))
              (nxt := nextLevel_loop H (cells hp cur) (i + 2) (cells hp nxt @ [?x])) \<rparr>"
        using "1.IH"(1)[OF lt True ne]
        unfolding array_push_cells_other[OF ne] array_push_cells_same .
      also have "\<dots> = hp\<lparr> cells := (cells hp)
              (nxt := nextLevel_loop H (cells hp cur) (i + 2) (cells hp nxt @ [?x])) \<rparr>"
        by (rule array_push_overwritten)
      also have "nextLevel_loop H (cells hp cur) (i + 2) (cells hp nxt @ [?x]) =
                 nextLevel_loop H (cells hp cur) i (cells hp nxt)"
        using lt True by (subst (2) nextLevel_loop.simps) simp
      finally show ?thesis .
    next
      case False
      let ?x = "cells hp cur ! i"
      have "nextLevel_loop_heap H cur nxt i hp =
              nextLevel_loop_heap H cur nxt (i + 2) (array_push nxt ?x hp)"
        using lt False by (subst nextLevel_loop_heap.simps) simp
      also have "\<dots> = (array_push nxt ?x hp)\<lparr> cells := (cells (array_push nxt ?x hp))
              (nxt := nextLevel_loop H (cells hp cur) (i + 2) (cells hp nxt @ [?x])) \<rparr>"
        using "1.IH"(2)[OF lt False ne]
        unfolding array_push_cells_other[OF ne] array_push_cells_same .
      also have "\<dots> = hp\<lparr> cells := (cells hp)
              (nxt := nextLevel_loop H (cells hp cur) (i + 2) (cells hp nxt @ [?x])) \<rparr>"
        by (rule array_push_overwritten)
      also have "nextLevel_loop H (cells hp cur) (i + 2) (cells hp nxt @ [?x]) =
                 nextLevel_loop H (cells hp cur) i (cells hp nxt)"
        using lt False by (subst (2) nextLevel_loop.simps) simp
      finally show ?thesis .
    qed
  qed
qed

lemma nextLevel_loop_heap_empty:
  "cells hp cur = [] \<Longrightarrow> nextLevel_loop_heap H cur nxt i hp = hp"
  by (subst nextLevel_loop_heap.simps) simp

text \<open>The \<^verbatim>\<open>while\<close> loop of \<^verbatim>\<open>buildMerkleTree\<close>: each round allocates \<^verbatim>\<open>nextLevel = []\<close>, fills
  it, and rebinds \<^verbatim>\<open>currentLevel\<close> to it. It returns the reference of the last level.\<close>

function buildMerkleTree_loop_heap ::
  "('h \<Rightarrow> 'h \<Rightarrow> 'h) \<Rightarrow> nat \<Rightarrow> 'h array_heap \<Rightarrow> nat \<times> 'h array_heap" where
  "buildMerkleTree_loop_heap H currentLevel hp =
     (if length (cells hp currentLevel) > 1 then
        (let (nextLevel, hp1) = new_array [] hp;
             hp2 = nextLevel_loop_heap H currentLevel nextLevel 0 hp1
         in buildMerkleTree_loop_heap H nextLevel hp2)
      else (currentLevel, hp))"
  by pat_completeness auto
termination
proof (relation "measure (\<lambda>(H, currentLevel, hp). length (cells hp currentLevel))", goal_cases)
  case 1
  show ?case by simp
next
  case (2 H cur hp x nxt hp1 hp2)
  then have nxt: "nxt = fresh hp"
    and hp1: "hp1 = hp\<lparr> cells := (cells hp)(fresh hp := []), fresh := Suc (fresh hp) \<rparr>"
    by (simp_all add: new_array_def)
  show ?case
  proof (cases "cur = nxt")
    case True
    then have "cells hp1 cur = []" by (simp add: hp1 nxt)
    then have "hp2 = hp1" using 2 by (simp add: nextLevel_loop_heap_empty)
    then have "cells hp2 nxt = []" using True \<open>cells hp1 cur = []\<close> by simp
    moreover from 2 have "1 < length (cells hp cur)" by simp
    then have "0 < length (cells hp cur)" by linarith
    ultimately show ?thesis by simp
  next
    case False
    then have "cells hp2 nxt = nextLevel_loop H (cells hp cur) 0 []"
      using 2 by (simp add: nextLevel_loop_heap_pure hp1 nxt)
    with 2 show ?thesis by (simp add: length_nextLevel)
  qed
qed

declare buildMerkleTree_loop_heap.simps [simp del]


text \<open>\<^verbatim>\<open>let currentLevel = [...proofHashes]\<close> allocates a copy of the input array.\<close>

definition buildMerkleTree_heap ::
  "('h \<Rightarrow> 'h \<Rightarrow> 'h) \<Rightarrow> nat \<Rightarrow> 'h array_heap \<Rightarrow> (error + 'h) \<times> 'h array_heap" where
  "buildMerkleTree_heap H proofHashes hp =
     (if length (cells hp proofHashes) = 0 then (Inl EmptyLeafSet, hp)
      else if length (cells hp proofHashes) = 1 then (Inr (cells hp proofHashes ! 0), hp)
      else (let (currentLevel, hp1) = new_array (cells hp proofHashes) hp;
                (lastLevel, hp2) = buildMerkleTree_loop_heap H currentLevel hp1
            in (Inr (cells hp2 lastLevel ! 0), hp2)))"

text \<open>
  The \<^verbatim>\<open>while\<close> loop of \<^verbatim>\<open>generateMerkleProof\<close>, pushing siblings onto the array \<open>pathRef\<close>.
  Its termination depends on \<open>pathRef\<close> being an array of its own, which holds where the
  function is called; the loop is therefore defined as a partial function, \<open>None\<close> meaning
  that it does not return, and lemma \<open>generateMerkleProof_loop_heap_spec\<close> shows that it
  returns.
\<close>

partial_function (option) generateMerkleProof_loop_heap ::
  "('h \<Rightarrow> 'h \<Rightarrow> 'h) \<Rightarrow> nat \<Rightarrow> nat \<Rightarrow> nat \<Rightarrow> 'h array_heap \<Rightarrow> 'h array_heap option" where
  "generateMerkleProof_loop_heap H currentLevel idx pathRef hp =
     (if length (cells hp currentLevel) > 1 then
        (let hp1 = (if idx mod 2 = 0 then
                      (if idx + 1 < length (cells hp currentLevel)
                       then array_push pathRef (cells hp currentLevel ! (idx + 1)) hp
                       else hp)
                    else array_push pathRef (cells hp currentLevel ! (idx - 1)) hp);
             (nextLevel, hp2) = new_array [] hp1;
             hp3 = nextLevel_loop_heap H currentLevel nextLevel 0 hp2
         in generateMerkleProof_loop_heap H nextLevel (idx div 2) pathRef hp3)
      else Some hp)"

text \<open>\<^verbatim>\<open>const path = []\<close> and \<^verbatim>\<open>let currentLevel = [...proofHashes]\<close> are allocations; the
  returned object holds the reference of \<^verbatim>\<open>path\<close>, the index and the leaf, read from the
  input array after the loop.\<close>

definition generateMerkleProof_heap ::
  "('h \<Rightarrow> 'h \<Rightarrow> 'h) \<Rightarrow> nat \<Rightarrow> nat \<Rightarrow> 'h array_heap
     \<Rightarrow> ((error + nat \<times> nat \<times> 'h) \<times> 'h array_heap) option" where
  "generateMerkleProof_heap H proofHashes leafIndex hp =
     (if leafIndex \<ge> length (cells hp proofHashes) then Some (Inl IndexOutOfRange, hp)
      else (let (pathRef, hp1) = new_array [] hp;
                (currentLevel, hp2) = new_array (cells hp1 proofHashes) hp1
            in case generateMerkleProof_loop_heap H currentLevel leafIndex pathRef hp2 of
                 None \<Rightarrow> None
               | Some hp3 \<Rightarrow>
                   Some (Inr (pathRef, leafIndex, cells hp3 proofHashes ! leafIndex), hp3)))"

section \<open>Proof normalizer (\<^verbatim>\<open>src/SnarktorVerificationClient.js\<close>)\<close>

subsection \<open>JavaScript values\<close>

text \<open>
  \<^verbatim>\<open>parseGenericProof\<close> and \<^verbatim>\<open>generateProofHash\<close> dispatch on the run-time type and on the
  truthiness of their arguments, so the arguments are JavaScript values. A number is NaN, an
  infinity or a finite value (both zeros are \<open>Finite 0\<close>); of a number only whether it is
  truthy matters here. A string is modelled by its UTF-8 bytes, a plain object by its
  properties in order, a \<^verbatim>\<open>Buffer\<close> by its bytes.
\<close>

datatype jsnumber = NaN | Infinity bool | Finite real

datatype jsval =
    JUndefined
  | JNull
  | JBoolean bool
  | JNumber jsnumber
  | JBigInt int
  | JString string
  | JSymbol
  | JFunction
  | JBuffer "8 word list"
  | JArray "jsval list"
  | JObject "(string \<times> jsval) list"

fun typeof :: "jsval \<Rightarrow> string" where
  "typeof JUndefined = ''undefined''"
| "typeof JNull = ''object''"
| "typeof (JBoolean b) = ''boolean''"
| "typeof (JNumber n) = ''number''"
| "typeof (JBigInt i) = ''bigint''"
| "typeof (JString s) = ''string''"
| "typeof JSymbol = ''symbol''"
| "typeof JFunction = ''function''"
| "typeof (JBuffer bs) = ''object''"
| "typeof (JArray vs) = ''object''"
| "typeof (JObject kvs) = ''object''"

fun truthy :: "jsval \<Rightarrow> bool" where
  "truthy JUndefined = False"
| "truthy JNull = False"
| "truthy (JBoolean b) = b"
| "truthy (JNumber n) = (case n of NaN \<Rightarrow> False | Infinity s \<Rightarrow> True | Finite x \<Rightarrow> x \<noteq> 0)"
| "truthy (JBigInt i) = (i \<noteq> 0)"
| "truthy (JString s) = (s \<noteq> [])"
| "truthy v = True"

fun isBuffer :: "jsval \<Rightarrow> bool" where
  "isBuffer (JBuffer bs) = True"
| "isBuffer v = False"

fun getProperty :: "jsval \<Rightarrow> string \<Rightarrow> jsval" where
  "getProperty (JObject kvs) k = (case map_of kvs k of Some v \<Rightarrow> v | None \<Rightarrow> JUndefined)"
| "getProperty v k = JUndefined"

subsection \<open>The environment of the normalizer\<close>

text \<open>
  What is left of the environment is taken as a parameter: the Keccak-256 digest of a byte
  sequence, \<^verbatim>\<open>JSON.stringify\<close> (which returns a string, returns \<^verbatim>\<open>undefined\<close>, here \<open>None\<close>,
  or throws) and the string conversion that \<^verbatim>\<open>Array.prototype.join\<close> applies to an element
  that is not a string (it can throw).
\<close>

record 'h externals =
  keccak :: "8 word list \<Rightarrow> 'h"
  JSON_stringify :: "jsval \<Rightarrow> error + string option"
  ToString :: "jsval \<Rightarrow> error + string"

definition keccak256_string :: "('h, 'x) externals_scheme \<Rightarrow> string \<Rightarrow> error + 'h" where
  "keccak256_string E s = (case arrayify s of Inl e \<Rightarrow> Inl e | Inr bs \<Rightarrow> Inr (keccak E bs))"

subsection \<open>\<^verbatim>\<open>parseGenericProof\<close>\<close>

text \<open>
  The three branches of the source are tried in its order: \<^verbatim>\<open>typeof proofData === 'string'\<close>
  (exactly the values \<open>JString s\<close>), \<^verbatim>\<open>Buffer.isBuffer(proofData)\<close> (exactly \<open>JBuffer bs\<close>),
  then \<^verbatim>\<open>proofData && typeof proofData === 'object'\<close>; anything else reaches the final
  \<^verbatim>\<open>throw\<close>. \<open>components\<close> is the array built in the object branch, \<open>join\<close> is
  \<^verbatim>\<open>components.join('')\<close>.
\<close>

record 'h parsed_proof =
  proofHash :: 'h
  rawData :: string
  structured :: "jsval option"

definition stringified :: "('h, 'x) externals_scheme \<Rightarrow> jsval \<Rightarrow> error + jsval" where
  "stringified E v =
     (case JSON_stringify E v of Inl e \<Rightarrow> Inl e
      | Inr None \<Rightarrow> Inr JUndefined
      | Inr (Some s) \<Rightarrow> Inr (JString s))"

fun joinElement :: "('h, 'x) externals_scheme \<Rightarrow> jsval \<Rightarrow> error + string" where
  "joinElement E JUndefined = Inr []"
| "joinElement E JNull = Inr []"
| "joinElement E (JString s) = Inr s"
| "joinElement E v = ToString E v"

fun join :: "('h, 'x) externals_scheme \<Rightarrow> jsval list \<Rightarrow> error + string" where
  "join E [] = Inr []"
| "join E (v # vs) =
     (case joinElement E v of Inl e \<Rightarrow> Inl e
      | Inr s \<Rightarrow> (case join E vs of Inl e \<Rightarrow> Inl e | Inr r \<Rightarrow> Inr (s @ r)))"

definition components :: "('h, 'x) externals_scheme \<Rightarrow> jsval \<Rightarrow> error + jsval list" where
  "components E proofData =
     (let c1 = (if truthy (getProperty proofData ''proof'')
                then [getProperty proofData ''proof''] else [])
      in case (if truthy (getProperty proofData ''publicSignals'')
               then (case stringified E (getProperty proofData ''publicSignals'') of
                       Inl e \<Rightarrow> Inl e | Inr j \<Rightarrow> Inr (c1 @ [j]))
               else Inr c1) of
           Inl e \<Rightarrow> Inl e
         | Inr c2 \<Rightarrow>
          (case (if truthy (getProperty proofData ''vk'')
                 then (case stringified E (getProperty proofData ''vk'') of
                         Inl e \<Rightarrow> Inl e | Inr j \<Rightarrow> Inr (c2 @ [j]))
                 else Inr c2) of
             Inl e \<Rightarrow> Inl e
           | Inr c3 \<Rightarrow>
              (if length c3 = 0
               then (case stringified E proofData of
                       Inl e \<Rightarrow> Inl e | Inr j \<Rightarrow> Inr (c3 @ [j]))
               else Inr c3)))"

fun parseGenericProof :: "('h, 'x) externals_scheme \<Rightarrow> jsval \<Rightarrow> error + 'h parsed_proof" where
  "parseGenericProof E (JString s) =
     (case keccak256_string E s of Inl e \<Rightarrow> Inl e
      | Inr h \<Rightarrow> Inr \<lparr> proofHash = h, rawData = s, structured = None \<rparr>)"
| "parseGenericProof E (JBuffer bs) =
     Inr \<lparr> proofHash = keccak E bs, rawData = hexlify bs, structured = None \<rparr>"
| "parseGenericProof E proofData =
     (if truthy proofData \<and> typeof proofData = ''object'' then
        (case components E proofData of Inl e \<Rightarrow> Inl e
         | Inr cs \<Rightarrow>
            (case join E cs of Inl e \<Rightarrow> Inl e
             | Inr combined \<Rightarrow>
                Inr \<lparr> proofHash = keccak E (toUtf8Bytes combined),
                      rawData = combined,
                      structured = Some proofData \<rparr>))
      else Inl UnsupportedPayloadFormat)"

subsection \<open>\<^verbatim>\<open>generateProofHash\<close>\<close>


record 'h proof_hash =
  proofHash :: 'h
  publicInputHash :: 'h
  verificationKeyHash :: 'h
  originalData :: jsval


section \<open>Fee accounting\<close>

text \<open>
  The fee test (\<^verbatim>\<open>test/SnarktorVerifier.test.js\<close>, "Fee Distribution") computes the three
  shares with unbounded \<^verbatim>\<open>BigNumber\<close> arithmetic, \<^verbatim>\<open>totalFee.mul(p).div(100)\<close>; \<^verbatim>\<open>div\<close>
  truncates, which on non-negative values is the floor.
\<close>

definition expectedCur :: "nat \<Rightarrow> nat" where
  "expectedCur totalFee = totalFee * 40 div 100"

definition expectedInc :: "nat \<Rightarrow> nat" where
  "expectedInc totalFee = totalFee * 5 div 100"

definition expectedAgg :: "nat \<Rightarrow> nat" where
  "expectedAgg totalFee = totalFee * 55 div 100"

text \<open>
  The Solidity library function \<^verbatim>\<open>calculateFeeDistribution(uint256)\<close> computes the same three
  expressions on \<^verbatim>\<open>uint256\<close>; under \<^verbatim>\<open>pragma solidity ^0.8.19\<close> a product that does not fit
  256 bits reverts, which is the value \<open>None\<close>.
\<close>

definition checked_mul :: "nat \<Rightarrow> nat \<Rightarrow> nat option" where
  "checked_mul a b = (if a * b < 2 ^ 256 then Some (a * b) else None)"

definition calculateFeeDistribution :: "nat \<Rightarrow> (nat \<times> nat \<times> nat) option" where
  "calculateFeeDistribution totalFee =
     (case checked_mul totalFee 40 of None \<Rightarrow> None | Some cur \<Rightarrow>
      (case checked_mul totalFee 5 of None \<Rightarrow> None | Some inc \<Rightarrow>
       (case checked_mul totalFee 55 of None \<Rightarrow> None | Some agg \<Rightarrow>
          Some (cur div 100, inc div 100, agg div 100))))"

text \<open>
  An idealised collision-free hash, used where a statement has to be evaluated at a concrete
  input: combining two values gives a value that no other combination gives.
\<close>

datatype digest = Atom nat | Keccak "8 word list" | Comb digest digest

text \<open>
  A concrete environment for evaluating statements: the digest is the idealised \<open>Keccak\<close>;
  \<^verbatim>\<open>JSON.stringify\<close> is given on the literals used below, where it is exact
  (\<^verbatim>\<open>null\<close>, booleans, \<^verbatim>\<open>0\<close>, the empty string; \<^verbatim>\<open>undefined\<close> for values without a JSON
  form); on any other value it is a placeholder that no statement below evaluates. The
  general theorems hold for every environment.
\<close>

fun exampleStringify :: "jsval \<Rightarrow> error + string option" where
  "exampleStringify JNull = Inr (Some ''null'')"
| "exampleStringify (JBoolean b) = Inr (Some (if b then ''true'' else ''false''))"
| "exampleStringify (JNumber (Finite x)) = (if x = 0 then Inr (Some ''0'') else Inl TypeError)"
| "exampleStringify (JString s) = (if s = [] then Inr (Some [CHR 0x22, CHR 0x22]) else Inl TypeError)"
| "exampleStringify (JBigInt i) = Inl TypeError"
| "exampleStringify v = Inr None"

definition exampleExternals :: "digest externals" where
  "exampleExternals =
     \<lparr> keccak = Keccak, JSON_stringify = exampleStringify, ToString = (\<lambda>v. Inl TypeError) \<rparr>"

definition exampleHeap :: "digest array_heap" where
  "exampleHeap = \<lparr> cells = (\<lambda>r. [])(0 := [Atom 1, Atom 2, Atom 3]), fresh = 1 \<rparr>"

text \<open>Concrete hashes and a concrete digest function (the first byte of its input, as a
  number) for evaluating statements about hex strings.\<close>

definition exampleDigest :: "8 word list \<Rightarrow> 256 word" where
  "exampleDigest bs = (case bs of [] \<Rightarrow> 0 | b # rest \<Rightarrow> ucast b)"



definition leafA :: string where
  "leafA = ''0x0101010101010101010101010101010101010101010101010101010101010101''"
definition leafB :: string where
  "leafB = ''0x0202020202020202020202020202020202020202020202020202020202020202''"
definition leafC :: string where
  "leafC = ''0x0303030303030303030303030303030303030303030303030303030303030303''"

section \<open>Properties of the commitment tree engine\<close>

subsection \<open>Hex strings and the pair hash\<close>

lemma length_hexBytes: "length (hexBytes s) = length s div 2"
  by (induction s rule: hexBytes.induct) simp_all

lemma bytes32_ok: "isBytes32 s \<Longrightarrow> bytes32 s = Inr (hexBytes (drop 2 s))"
  by (simp add: isBytes32_def bytes32_def arrayify_def length_hexBytes)

text \<open>\<open>isBytes32\<close> holds of exactly the strings the library accepts as \<^verbatim>\<open>bytes32\<close>.\<close>

lemma isBytes32_iff: "isBytes32 s = (\<exists>bs. bytes32 s = Inr bs)"
proof
  assume "isBytes32 s"
  then show "\<exists>bs. bytes32 s = Inr bs" by (simp add: bytes32_ok)
next
  assume "\<exists>bs. bytes32 s = Inr bs"
  then have h: "isHexString s" and ev: "length (drop 2 s) mod 2 = 0"
    and len: "length (hexBytes (drop 2 s)) = 32"
    by (auto simp: bytes32_def arrayify_def split: if_splits)
  from len have "length (drop 2 s) div 2 = 32" by (simp add: length_hexBytes)
  with ev have d: "length (drop 2 s) = 64" by presburger
  then have "length s = 66" by simp
  with h show "isBytes32 s" by (simp add: isBytes32_def)
qed

lemma solidityKeccak256_pairHash:
  "isBytes32 x \<Longrightarrow> isBytes32 y \<Longrightarrow> solidityKeccak256 K x y = Inr (pairHash K x y)"
  by (simp add: solidityKeccak256_def bytes32_ok pairHash_def)

lemma hexValue_hexChar: "\<exists>v. hexValue (hexChar n) = Some v"
proof -
  have "''0123456789abcdef'' ! (n mod 16) \<in> set ''0123456789abcdef''"
    by (rule nth_mem) simp
  moreover have "\<forall>c \<in> set ''0123456789abcdef''. \<exists>v. hexValue c = Some v"
    by (simp add: hexValue_def)
  ultimately show ?thesis
    unfolding hexChar_def by blast
qed

lemma length_hexlify: "length (hexlify bs) = 2 + 2 * length bs"
  by (induction bs) (simp_all add: hexlify_def)

lemma isHexString_hexlify: "isHexString (hexlify bs)"
  by (induction bs) (simp_all add: isHexString_def hexlify_def hexValue_hexChar)

lemma length_word_bytes32: "length (word_bytes32 w) = 32"
  by (simp add: word_bytes32_def)

lemma isBytes32_pairHash: "isBytes32 (pairHash K x y)"
  by (simp add: isBytes32_def pairHash_def isHexString_hexlify length_hexlify length_word_bytes32)



lemma verifyMerkleProof_loop_fold:
  "list_all isBytes32 (drop i pth) \<Longrightarrow> isBytes32 c \<Longrightarrow>
   verifyMerkleProof_loop K pth i idx c = Inr (foldInclusionPath (pairHash K) (drop i pth) idx c)"
proof (induction K pth i idx c rule: verifyMerkleProof_loop.induct)
  case (1 K pth i idx c)
  show ?case
  proof (cases "i < length pth")
    case False
    then show ?thesis by (simp add: verifyMerkleProof_loop.simps)
  next
    case True
    then have d: "drop i pth = pth ! i # drop (i + 1) pth"
      by (simp add: Cons_nth_drop_Suc)
    with "1.prems"(1) have el: "isBytes32 (pth ! i)" and rest: "list_all isBytes32 (drop (i + 1) pth)"
      by simp_all
    show ?thesis
    proof (cases "idx mod 2 = 0")
      case e: True
      then have ev: "even idx" by presburger
      have h: "solidityKeccak256 K c (pth ! i) = Inr (pairHash K c (pth ! i))"
        by (rule solidityKeccak256_pairHash[OF "1.prems"(2) el])
      have "verifyMerkleProof_loop K pth i idx c =
            verifyMerkleProof_loop K pth (i + 1) (idx div 2) (pairHash K c (pth ! i))"
        using True e h by (subst verifyMerkleProof_loop.simps) (simp add: Let_def)
      also have "\<dots> = Inr (foldInclusionPath (pairHash K) (drop (i + 1) pth) (idx div 2)
                            (pairHash K c (pth ! i)))"
        by (rule "1.IH"(1)[OF True refl e h rest isBytes32_pairHash])
      finally show ?thesis using ev by (simp add: d)
    next
      case o: False
      then have od: "odd idx" by presburger
      have h: "solidityKeccak256 K (pth ! i) c = Inr (pairHash K (pth ! i) c)"
        by (rule solidityKeccak256_pairHash[OF el "1.prems"(2)])
      have "verifyMerkleProof_loop K pth i idx c =
            verifyMerkleProof_loop K pth (i + 1) (idx div 2) (pairHash K (pth ! i) c)"
        using True o h by (subst verifyMerkleProof_loop.simps) (simp add: Let_def)
      also have "\<dots> = Inr (foldInclusionPath (pairHash K) (drop (i + 1) pth) (idx div 2)
                            (pairHash K (pth ! i) c))"
        by (rule "1.IH"(2)[OF True refl o h rest isBytes32_pairHash])
      finally show ?thesis using od by (simp add: d)
    qed
  qed
qed

lemma verifyMerkleProof_fold:
  "list_all isBytes32 pth \<Longrightarrow> isBytes32 lf \<Longrightarrow>
   verifyMerkleProof K pth idx lf r = Inr (foldInclusionPath (pairHash K) pth idx lf = r)"
  using verifyMerkleProof_loop_fold[of 0 pth lf K idx]
  by (simp add: verifyMerkleProof_def)

subsection \<open>The loops\<close>

text \<open>The running index of \<^verbatim>\<open>generateMerkleProof\<close> stays inside the level, so the unguarded
  read \<^verbatim>\<open>currentLevel[index - 1]\<close> of the odd branch is always in range.\<close>

lemma generateMerkleProof_loop_index:
  "idx < length cur \<Longrightarrow> idx div 2 < length (nextLevel_loop H cur 0 [])"
  by (simp add: length_nextLevel)

lemma pairUp_nth:
  "2 * j + 1 < length xs \<Longrightarrow> pairUp H xs ! j = H (xs ! (2 * j)) (xs ! (2 * j + 1))"
proof (induction H xs arbitrary: j rule: pairUp.induct)
  case (1 H x y xs)
  show ?case
  proof (cases j)
    case 0
    then show ?thesis by simp
  next
    case (Suc m)
    with "1.prems" have "2 * m + 1 < length xs" by simp
    from "1.IH"[OF this] Suc show ?thesis by simp
  qed
qed simp_all

lemma generateMerkleProof_loop_acc:
  "generateMerkleProof_loop H xs idx pth = pth @ generateMerkleProof_loop H xs idx []"
proof (induction H xs arbitrary: idx pth rule: buildMerkleTree_loop.induct)
  case (1 H xs)
  show ?case
  proof (cases "1 < length xs")
    case False
    then show ?thesis by (simp add: generateMerkleProof_loop.simps)
  next
    case True
    let ?s = "(if idx mod 2 = 0 then (if idx + 1 < length xs then [xs ! (idx + 1)] else [])
               else [xs ! (idx - 1)])"
    let ?n = "nextLevel_loop H xs 0 []"
    have a: "generateMerkleProof_loop H xs idx pth =
             generateMerkleProof_loop H ?n (idx div 2) (pth @ ?s)"
      using True by (subst generateMerkleProof_loop.simps) (simp add: Let_def)
    have b: "generateMerkleProof_loop H xs idx [] =
             generateMerkleProof_loop H ?n (idx div 2) ?s"
      using True by (subst generateMerkleProof_loop.simps) (simp add: Let_def)
    have c: "generateMerkleProof_loop H ?n (idx div 2) (pth @ ?s) =
             (pth @ ?s) @ generateMerkleProof_loop H ?n (idx div 2) []"
      by (rule "1.IH"[OF True])
    have d: "generateMerkleProof_loop H ?n (idx div 2) ?s =
             ?s @ generateMerkleProof_loop H ?n (idx div 2) []"
      by (rule "1.IH"[OF True])
    show ?thesis unfolding a b c d by simp
  qed
qed

lemma foldInclusionPath_perfect_tree:
  "length L = 2 ^ k \<Longrightarrow> i < length L \<Longrightarrow>
   foldInclusionPath H (generateMerkleProof_loop H L i []) i (L ! i) =
     buildMerkleTree_loop H L ! 0"
proof (induction k arbitrary: L i)
  case 0
  then have "length L = 1" "i = 0" by simp_all
  then show ?case
    by (simp add: generateMerkleProof_loop.simps buildMerkleTree_loop.simps)
next
  case (Suc k)
  let ?n = "nextLevel_loop H L 0 []"
  have len: "length L = 2 * 2 ^ k" using Suc.prems(1) by simp
  have "(1::nat) \<le> 2 ^ k" by simp
  with len have gt: "1 < length L" by linarith
  have n: "?n = pairUp H L" by (rule nextLevel_eq)
  have ln: "length ?n = 2 ^ k" using len by (simp add: length_nextLevel)
  have il: "i div 2 < length ?n" using Suc.prems(2) len ln by simp
  have pair: "2 * (i div 2) + 1 < length L" using Suc.prems(2) len by presburger
  have nth: "?n ! (i div 2) = H (L ! (2 * (i div 2))) (L ! (2 * (i div 2) + 1))"
    unfolding n by (rule pairUp_nth[OF pair])
  have ih: "foldInclusionPath H (generateMerkleProof_loop H ?n (i div 2) []) (i div 2)
              (?n ! (i div 2)) = buildMerkleTree_loop H ?n ! 0"
    by (rule Suc.IH[OF ln il])
  have bl: "buildMerkleTree_loop H L = buildMerkleTree_loop H ?n"
    using gt by (subst buildMerkleTree_loop.simps) simp
  show ?case
  proof (cases "even i")
    case True
    then have e: "i mod 2 = 0" "2 * (i div 2) = i" by presburger+
    with pair have s: "i + 1 < length L" by simp
    have g: "generateMerkleProof_loop H L i [] =
             L ! (i + 1) # generateMerkleProof_loop H ?n (i div 2) []"
      using gt e s
      by (subst generateMerkleProof_loop.simps, subst generateMerkleProof_loop_acc)
         (simp add: Let_def)
    show ?thesis using ih nth e True by (simp add: g bl)
  next
    case False
    then have o: "i mod 2 \<noteq> 0" "2 * (i div 2) + 1 = i" "2 * (i div 2) = i - 1"
      by presburger+
    have g: "generateMerkleProof_loop H L i [] =
             L ! (i - 1) # generateMerkleProof_loop H ?n (i div 2) []"
      using gt o
      by (subst generateMerkleProof_loop.simps, subst generateMerkleProof_loop_acc)
         (simp add: Let_def)
    show ?thesis using ih nth o False by (simp add: g bl)
  qed
qed

lemma generateMerkleProof_loop_siblings:
  "generateMerkleProof_loop H xs idx [] = inclusionSiblings H xs idx"
proof (induction H xs idx rule: inclusionSiblings.induct)
  case (1 H xs idx)
  show ?case
  proof (cases "1 < length xs")
    case False
    then show ?thesis
      by (subst generateMerkleProof_loop.simps, subst inclusionSiblings.simps) simp
  next
    case True
    let ?s = "(if even idx then (if idx + 1 < length xs then [xs ! (idx + 1)] else [])
               else [xs ! (idx - 1)])"
    have p: "(idx mod 2 = 0) = even idx" by presburger
    have "generateMerkleProof_loop H xs idx [] =
          generateMerkleProof_loop H (pairUp H xs) (idx div 2) ?s"
      using True by (subst generateMerkleProof_loop.simps) (simp add: Let_def nextLevel_eq p)
    also have "\<dots> = ?s @ generateMerkleProof_loop H (pairUp H xs) (idx div 2) []"
      by (rule generateMerkleProof_loop_acc)
    also have "\<dots> = ?s @ inclusionSiblings H (pairUp H xs) (idx div 2)"
      using "1.IH"[OF True] by simp
    also have "\<dots> = inclusionSiblings H xs idx"
      using True by (subst (2) inclusionSiblings.simps) simp
    finally show ?thesis .
  qed
qed



text \<open>The example hashes are well typed; their pair hashes under the example digest.\<close>

lemma examplePairHash_first: "pairHash exampleDigest leafA leafB =
  ''0x0000000000000000000000000000000000000000000000000000000000000001''"
  by (simp add: pairHash_def exampleDigest_def leafA_def leafB_def hexValue_def word_bytes32_def
      hexlify_def hexChar_def upt_rec drop_bit_eq_div)

lemma exampleLeaves_wellTyped: "isBytes32 leafA" "isBytes32 leafB" "isBytes32 leafC"
  by (simp_all add: isBytes32_def isHexString_def hexValue_def leafA_def leafB_def leafC_def)

lemma examplePairHash_values: "pairHash exampleDigest leafC (pairHash exampleDigest leafA leafB) =
  ''0x0000000000000000000000000000000000000000000000000000000000000003'' \<and>
  pairHash exampleDigest (pairHash exampleDigest leafA leafB) leafC =
  ''0x0000000000000000000000000000000000000000000000000000000000000000''"
  by (simp add: examplePairHash_first) (simp add: pairHash_def exampleDigest_def leafC_def hexValue_def word_bytes32_def
      hexlify_def hexChar_def upt_rec drop_bit_eq_div)

subsection \<open>The engine as specified\<close>

text \<open>
  \<^bold>\<open>C3\<close>. For three hashes \<open>a\<close>, \<open>b\<close>, \<open>c\<close> the first level step gives \<open>[hash(a ++ b), c]\<close>: the
  unpaired last element is promoted unchanged, and the root is \<open>hash(hash(a ++ b) ++ c)\<close>.
\<close>

theorem buildMerkleTree_odd_promotion:
  "nextLevel_loop H [a, b, c] 0 [] = [H a b, c] \<and>
   buildMerkleTree H [a, b, c] = Inr (H (H a b) c)"
  by (simp add: buildMerkleTree_def buildMerkleTree_loop.simps nextLevel_eq)




text \<open>
  \<^bold>\<open>C6\<close>. The root of a single-leaf list is that leaf; no hash is applied.
\<close>

theorem buildMerkleTree_single:
  "buildMerkleTree H [h] = Inr h"
  by (simp add: buildMerkleTree_def)

text \<open>
  \<^bold>\<open>C7\<close>. \<^verbatim>\<open>buildMerkleTree\<close> fails with \<open>EmptyLeafSet\<close> on the empty list and returns a hash
  for every non-empty list: the loop ends with a level of exactly one element, which is the
  value returned.
\<close>

theorem buildMerkleTree_empty_or_root:
  "buildMerkleTree H [] = Inl EmptyLeafSet \<and>
   (L \<noteq> [] \<longrightarrow> (\<exists>r. buildMerkleTree H L = Inr r \<and> buildMerkleTree_loop H L = [r]))"
proof -
  have "\<exists>r. buildMerkleTree H L = Inr r \<and> buildMerkleTree_loop H L = [r]" if ne: "L \<noteq> []"
  proof -
    from length_buildMerkleTree_loop[OF ne, of H]
    obtain r where r: "buildMerkleTree_loop H L = [r]"
      by (cases "buildMerkleTree_loop H L") auto
    show ?thesis
    proof (cases "length L = 1")
      case True
      then obtain h where "L = [h]" by (cases L) auto
      then show ?thesis by (simp add: buildMerkleTree_def buildMerkleTree_loop.simps)
    next
      case False
      with ne r show ?thesis by (simp add: buildMerkleTree_def Let_def)
    qed
  qed
  then show ?thesis by (simp add: buildMerkleTree_def)
qed

theorem buildMerkleTree_empty_or_root_witness:
  "[Atom 1, Atom 2, Atom 3] \<noteq> [] \<and>
   (\<exists>r. buildMerkleTree Comb [Atom 1, Atom 2, Atom 3] = Inr r \<and>
        buildMerkleTree_loop Comb [Atom 1, Atom 2, Atom 3] = [r])"
  using buildMerkleTree_empty_or_root [where H = Comb and L = "[Atom 1, Atom 2, Atom 3]"]
  by simp

text \<open>
  \<^bold>\<open>C8\<close>. \<^verbatim>\<open>generateMerkleProof\<close> fails with \<open>IndexOutOfRange\<close> when the index is not below the
  number of leaves; otherwise it returns an inclusion path made of the siblings that the
  specification describes, the index it was given and the leaf at that index.
\<close>

theorem generateMerkleProof_range:
  "(leafIndex \<ge> length L \<longrightarrow> generateMerkleProof H L leafIndex = Inl IndexOutOfRange) \<and>
   (leafIndex < length L \<longrightarrow>
      generateMerkleProof H L leafIndex =
         Inr \<lparr> path = inclusionSiblings H L leafIndex, index = leafIndex,
               leaf = L ! leafIndex \<rparr>)"
  by (simp add: generateMerkleProof_def generateMerkleProof_loop_siblings)

theorem generateMerkleProof_range_witness:
  "(3::nat) \<ge> length [Atom 1, Atom 2, Atom 3] \<and>
   generateMerkleProof Comb [Atom 1, Atom 2, Atom 3] 3 = Inl IndexOutOfRange \<and>
   (0::nat) < length [Atom 1, Atom 2, Atom 3] \<and>
   inclusionSiblings Comb [Atom 1, Atom 2, Atom 3] 0 = [Atom 2, Atom 3] \<and>
   generateMerkleProof Comb [Atom 1, Atom 2, Atom 3] 0 =
      Inr \<lparr> path = [Atom 2, Atom 3], index = 0, leaf = Atom 1 \<rparr>"
  using generateMerkleProof_range [where leafIndex = 3 and L = "[Atom 1, Atom 2, Atom 3]" and H = Comb]
        generateMerkleProof_range [where leafIndex = 0 and L = "[Atom 1, Atom 2, Atom 3]" and H = Comb]
  by (simp add: inclusionSiblings.simps)

text \<open>
  \<^bold>\<open>C1\<close>. Round trip of an inclusion path. For three leaves and the last index the leaf is
  promoted at the first level and contributes no sibling there, so the path has one entry,
  but the returned index is still 2. \<^verbatim>\<open>verifyMerkleProof\<close> reads that index as even and
  hashes the leaf on the left, while the root has it on the right: verification succeeds only
  if \<open>hash(c ++ hash(a ++ b)) = hash(hash(a ++ b) ++ c)\<close>.
\<close>

theorem generateMerkleProof_promoted_leaf:
  assumes "isBytes32 a" and "isBytes32 b" and "isBytes32 c"
  shows "generateMerkleProof (pairHash K) [a, b, c] 2 =
           Inr \<lparr> path = [pairHash K a b], index = 2, leaf = c \<rparr> \<and>
         buildMerkleTree (pairHash K) [a, b, c] = Inr (pairHash K (pairHash K a b) c) \<and>
         verifyMerkleProof K [pairHash K a b] 2 c (pairHash K (pairHash K a b) c) =
           Inr (pairHash K c (pairHash K a b) = pairHash K (pairHash K a b) c)"
proof -
  have "list_all isBytes32 [pairHash K a b]" by (simp add: isBytes32_pairHash)
  from verifyMerkleProof_fold[OF this assms(3), of K 2]
  show ?thesis
    by (simp add: generateMerkleProof_def generateMerkleProof_loop.simps nextLevel_eq
      IndexOutOfRange_def buildMerkleTree_def buildMerkleTree_loop.simps)
qed

text \<open>With the example digest the generated path for the promoted leaf is rejected.\<close>

theorem generateMerkleProof_promoted_leaf_witness:
  "isBytes32 leafA \<and> isBytes32 leafB \<and> isBytes32 leafC \<and>
   generateMerkleProof (pairHash exampleDigest) [leafA, leafB, leafC] 2 =
     Inr \<lparr> path = [pairHash exampleDigest leafA leafB], index = 2, leaf = leafC \<rparr> \<and>
   verifyMerkleProof exampleDigest [pairHash exampleDigest leafA leafB] 2 leafC
      (pairHash exampleDigest (pairHash exampleDigest leafA leafB) leafC) = Inr False"
  using generateMerkleProof_promoted_leaf [OF exampleLeaves_wellTyped, of exampleDigest] examplePairHash_values exampleLeaves_wellTyped by simp

text \<open>The same on the abstract model, with a collision-free hash.\<close>

lemma foldInclusionPath_promoted_leaf_rejected:
  "generateMerkleProof Comb [Atom 1, Atom 2, Atom 3] 2 =
     Inr \<lparr> path = [Comb (Atom 1) (Atom 2)], index = 2, leaf = Atom 3 \<rparr> \<and>
   buildMerkleTree Comb [Atom 1, Atom 2, Atom 3] = Inr (Comb (Comb (Atom 1) (Atom 2)) (Atom 3)) \<and>
   foldInclusionPath Comb [Comb (Atom 1) (Atom 2)] 2 (Atom 3) \<noteq>
     Comb (Comb (Atom 1) (Atom 2)) (Atom 3)"
  by (simp add: generateMerkleProof_def generateMerkleProof_loop.simps nextLevel_eq
      IndexOutOfRange_def buildMerkleTree_def buildMerkleTree_loop.simps)

text \<open>
  Where no node on the way to the root is promoted, generator and verification rule agree:
  for a list whose length is a power of two, folding any generated path gives the root.
\<close>

lemma roundtrip_perfect_tree:
  assumes "length L = 2 ^ k" and "i < length L"
  shows "\<exists>p r. generateMerkleProof H L i = Inr p \<and> buildMerkleTree H L = Inr r \<and>
               foldInclusionPath H (path p) (index p) (leaf p) = r"
proof -
  from assms have ne: "L \<noteq> []" by auto
  have g: "generateMerkleProof H L i =
             Inr \<lparr> path = generateMerkleProof_loop H L i [], index = i, leaf = L ! i \<rparr>"
    using assms(2) by (simp add: generateMerkleProof_def)
  have b: "buildMerkleTree H L = Inr (buildMerkleTree_loop H L ! 0)"
  proof (cases "length L = 1")
    case True
    then obtain h where "L = [h]" by (cases L) auto
    then show ?thesis by (simp add: buildMerkleTree_def buildMerkleTree_loop.simps)
  next
    case False
    with ne show ?thesis by (simp add: buildMerkleTree_def Let_def)
  qed
  show ?thesis
    using foldInclusionPath_perfect_tree[OF assms, of H] by (simp add: g b)
qed

section \<open>Properties of the fee split\<close>

lemma div100_bounds: "100 * ((n::nat) div 100) \<le> n \<and> n < 100 * (n div 100) + 100"
proof -
  have "n = 100 * (n div 100) + n mod 100" by simp
  moreover have "n mod 100 < 100" by simp
  ultimately show ?thesis by linarith
qed

lemma calculateFeeDistribution_shares:
  assumes "totalFee * 55 < 2 ^ 256"
  shows "calculateFeeDistribution totalFee =
           Some (expectedCur totalFee, expectedInc totalFee, expectedAgg totalFee)"
proof -
  have "totalFee * 40 \<le> totalFee * 55" "totalFee * 5 \<le> totalFee * 55" by simp_all
  with assms have "totalFee * 40 < 2 ^ 256" "totalFee * 5 < 2 ^ 256" by linarith+
  with assms show ?thesis
    by (simp add: calculateFeeDistribution_def checked_mul_def expectedCur_def
        expectedInc_def expectedAgg_def)
qed

text \<open>
  \<^bold>\<open>C2\<close>. The fee test asserts that the three shares add up to the total fee, and the
  percentages add up to 100, but each share is a truncating division of its own and no share
  takes what the truncation leaves. For a total fee of 1 the shares are 0, 0 and 0; for 19
  they are 7, 0 and 10, which is 17. The aggregation share is the plain floor of 55 percent
  in both cases.
\<close>

theorem fee_shares_lose_remainder:
  "calculateFeeDistribution 1 = Some (0, 0, 0) \<and>
   expectedCur 1 + expectedInc 1 + expectedAgg 1 = 0 \<and>
   calculateFeeDistribution 19 = Some (7, 0, 10) \<and>
   expectedCur 19 + expectedInc 19 + expectedAgg 19 = 17"
  by (simp add: calculateFeeDistribution_def checked_mul_def expectedCur_def expectedInc_def
      expectedAgg_def)

text \<open>
  How much is lost: the three shares never exceed the total fee, fall short of it by at most
  2 units, and add up to it exactly when the total fee is a multiple of 20.
\<close>

lemma fee_shares_sum:
  "expectedCur t + expectedInc t + expectedAgg t \<le> t \<and>
   t - (expectedCur t + expectedInc t + expectedAgg t) \<le> 2 \<and>
   ((expectedCur t + expectedInc t + expectedAgg t = t) = (20 dvd t))"
proof -
  define a b c where "a = t * 40 div 100" and "b = t * 5 div 100" and "c = t * 55 div 100"
  have A: "100 * a \<le> t * 40" "t * 40 < 100 * a + 100"
    using div100_bounds[of "t * 40"] by (simp_all add: a_def)
  have B: "100 * b \<le> t * 5" "t * 5 < 100 * b + 100"
    using div100_bounds[of "t * 5"] by (simp_all add: b_def)
  have C: "100 * c \<le> t * 55" "t * 55 < 100 * c + 100"
    using div100_bounds[of "t * 55"] by (simp_all add: c_def)
  have le: "a + b + c \<le> t" using A B C by linarith
  have short: "t - (a + b + c) \<le> 2" using A B C by linarith
  have exact: "(a + b + c = t) = (20 dvd t)"
  proof
    assume "a + b + c = t"
    with A B C have "t * 5 = 100 * b" by linarith
    then have "t = 20 * b" by linarith
    then show "20 dvd t" by simp
  next
    assume "20 dvd t"
    then obtain k where k: "t = 20 * k" by (auto simp: dvd_def)
    have "a = 8 * k" "b = k" "c = 11 * k"
      by (simp_all add: a_def b_def c_def k)
    then show "a + b + c = t" using k by simp
  qed
  from le short exact show ?thesis
    by (simp add: expectedCur_def expectedInc_def expectedAgg_def a_def b_def c_def)
qed

section \<open>Properties of the proof normalizer\<close>

lemma typeof_string: "(typeof v = ''string'') = (\<exists>s. v = JString s)"
  by (cases v) auto

lemma isBuffer_iff: "isBuffer v = (\<exists>bs. v = JBuffer bs)"
  by (cases v) auto

lemma parseGenericProof_unsupported:
  "typeof v \<noteq> ''string'' \<Longrightarrow> \<not> isBuffer v \<Longrightarrow> \<not> (truthy v \<and> typeof v = ''object'')
   \<Longrightarrow> parseGenericProof E v = Inl UnsupportedPayloadFormat"
  by (cases v) auto

lemma parseGenericProof_object:
  "truthy v \<Longrightarrow> typeof v = ''object'' \<Longrightarrow> \<not> isBuffer v \<Longrightarrow>
   components E v = Inr cs \<Longrightarrow> join E cs = Inr combined \<Longrightarrow>
   parseGenericProof E v =
     Inr \<lparr> parsed_proof.proofHash = keccak E (toUtf8Bytes combined), rawData = combined, structured = Some v \<rparr>"
  by (cases v) auto

text \<open>
  What \<^verbatim>\<open>parseGenericProof\<close> does on each kind of payload. Every payload that is neither a
  string, nor a buffer, nor a non-null object fails with \<open>UnsupportedPayloadFormat\<close> (in
  particular \<^verbatim>\<open>null\<close>, numbers, booleans and functions). A buffer always yields the hash of
  its bytes; a string yields the hash of its decoded bytes when it is 0x-prefixed hex with an
  even number of digits; an object yields the hash of its joined components when serializing
  and joining them does not throw.
\<close>

lemma parseGenericProof_outcomes:
  "(typeof v \<noteq> ''string'' \<and> \<not> isBuffer v \<and> \<not> (truthy v \<and> typeof v = ''object'')
      \<longrightarrow> parseGenericProof E v = Inl UnsupportedPayloadFormat) \<and>
   parseGenericProof E JNull = Inl UnsupportedPayloadFormat \<and>
   parseGenericProof E (JNumber n) = Inl UnsupportedPayloadFormat \<and>
   parseGenericProof E (JBoolean b) = Inl UnsupportedPayloadFormat \<and>
   parseGenericProof E JFunction = Inl UnsupportedPayloadFormat \<and>
   (\<exists>r. parseGenericProof E (JBuffer bs) = Inr r \<and> parsed_proof.proofHash r = keccak E bs) \<and>
   (arrayify s = Inr hx \<longrightarrow>
      (\<exists>r. parseGenericProof E (JString s) = Inr r \<and> parsed_proof.proofHash r = keccak E hx)) \<and>
   (truthy obj \<and> typeof obj = ''object'' \<and> \<not> isBuffer obj \<and>
    components E obj = Inr cs \<and> join E cs = Inr combined
      \<longrightarrow> (\<exists>r. parseGenericProof E obj = Inr r \<and>
                parsed_proof.proofHash r = keccak E (toUtf8Bytes combined)))"
  by (simp add: parseGenericProof_unsupported parseGenericProof_object keccak256_string_def)

lemma parseGenericProof_outcomes_example:
  "typeof JSymbol \<noteq> ''string'' \<and> \<not> isBuffer JSymbol \<and> \<not> (truthy JSymbol \<and> typeof JSymbol = ''object'') \<and>
   parseGenericProof exampleExternals JSymbol = Inl UnsupportedPayloadFormat \<and>
   arrayify ''0x12ab'' = Inr [0x12, 0xab] \<and>
   (\<exists>r. parseGenericProof exampleExternals (JString ''0x12ab'') = Inr r \<and>
        parsed_proof.proofHash r = Keccak [0x12, 0xab]) \<and>
   truthy (JObject [(''proof'', JString ''data'')]) \<and>
   typeof (JObject [(''proof'', JString ''data'')]) = ''object'' \<and>
   \<not> isBuffer (JObject [(''proof'', JString ''data'')]) \<and>
   components exampleExternals (JObject [(''proof'', JString ''data'')]) = Inr [JString ''data''] \<and>
   join exampleExternals [JString ''data''] = Inr ''data'' \<and>
   (\<exists>r. parseGenericProof exampleExternals (JObject [(''proof'', JString ''data'')]) = Inr r \<and>
        parsed_proof.proofHash r = Keccak (toUtf8Bytes ''data''))"
  using parseGenericProof_outcomes [where v = JSymbol and E = exampleExternals and s = "''0x12ab''" and hx = "[0x12, 0xab]"
      and obj = "JObject [(''proof'', JString ''data'')]" and cs = "[JString ''data'']"
      and combined = "''data''"]
  by (simp add: exampleExternals_def arrayify_def isHexString_def hexValue_def components_def)

text \<open>
  \<^bold>\<open>C9\<close>. The first half holds (lemma \<open>parseGenericProof_outcomes\<close>). The second half, that
  every string, buffer or object payload yields a commitment hash, fails on strings: the
  string branch hands the string to \<^verbatim>\<open>ethers.utils.keccak256\<close>, which throws on anything but
  even-length hex. The two string payloads of the repository's own tests,
  \<^verbatim>\<open>'example_proof'\<close> and \<^verbatim>\<open>'0x123456789abcdef'\<close> (fifteen digits), are both rejected, in
  every environment, and with the library's error rather than \<open>UnsupportedPayloadFormat\<close>.
\<close>

theorem parseGenericProof_rejects_test_strings:
  "parseGenericProof E (JString ''example_proof'') =
     Inl (ArgumentError ''invalid arrayify value'') \<and>
   parseGenericProof E (JString ''0x123456789abcdef'') =
     Inl (ArgumentError ''hex data is odd-length'')"
  by (simp add: keccak256_string_def arrayify_def isHexString_def hexValue_def)






section \<open>Properties of the heap model\<close>

text \<open>The heap functions return what the functions on values return, and they change no array
  that existed before the call.\<close>

lemma buildMerkleTree_loop_heap_spec:
  "cur < fresh hp \<Longrightarrow>
   (case buildMerkleTree_loop_heap H cur hp of
      (c', hp') \<Rightarrow> cells hp' c' = buildMerkleTree_loop H (cells hp cur) \<and>
                   fresh hp \<le> fresh hp' \<and>
                   (\<forall>r < fresh hp. cells hp' r = cells hp r))"
proof (induction H cur hp rule: buildMerkleTree_loop_heap.induct)
  case (1 H cur hp)
  show ?case
  proof (cases "1 < length (cells hp cur)")
    case False
    then show ?thesis
      by (subst buildMerkleTree_loop_heap.simps, subst buildMerkleTree_loop.simps) simp
  next
    case True
    define nxt where "nxt = fresh hp"
    define hp1 where "hp1 = hp\<lparr> cells := (cells hp)(fresh hp := []), fresh := Suc (fresh hp) \<rparr>"
    define hp2 where "hp2 = nextLevel_loop_heap H cur nxt 0 hp1"
    have na: "new_array [] hp = (nxt, hp1)"
      by (simp add: new_array_def nxt_def hp1_def)
    have ne: "cur \<noteq> nxt" using "1.prems" by (simp add: nxt_def)
    have hp2: "hp2 = hp1\<lparr> cells := (cells hp1)(nxt := nextLevel_loop H (cells hp cur) 0 []) \<rparr>"
      using ne by (simp add: hp2_def nextLevel_loop_heap_pure hp1_def nxt_def)
    have fr2: "fresh hp2 = Suc (fresh hp)" by (simp add: hp2 hp1_def)
    have c2n: "cells hp2 nxt = nextLevel_loop H (cells hp cur) 0 []" by (simp add: hp2)
    have c2o: "cells hp2 r = cells hp r" if "r < fresh hp" for r
      using that by (simp add: hp2 hp1_def nxt_def)
    have lt2: "nxt < fresh hp2" by (simp add: fr2 nxt_def)
    have unf: "buildMerkleTree_loop_heap H cur hp = buildMerkleTree_loop_heap H nxt hp2"
      using True by (subst buildMerkleTree_loop_heap.simps) (simp add: na hp2_def)
    have unfp: "buildMerkleTree_loop H (cells hp cur) =
                buildMerkleTree_loop H (nextLevel_loop H (cells hp cur) 0 [])"
      using True by (subst buildMerkleTree_loop.simps) simp
    obtain c' hp' where res: "buildMerkleTree_loop_heap H nxt hp2 = (c', hp')"
      by (cases "buildMerkleTree_loop_heap H nxt hp2")
    from "1.IH"[OF True na[symmetric] refl hp2_def lt2] res
    have ih: "cells hp' c' = buildMerkleTree_loop H (cells hp2 nxt)"
      "fresh hp2 \<le> fresh hp'" "\<forall>r < fresh hp2. cells hp' r = cells hp2 r"
      by simp_all
    have "\<forall>r < fresh hp. cells hp' r = cells hp r"
    proof (intro allI impI)
      fix r assume r: "r < fresh hp"
      then have "r < fresh hp2" by (simp add: fr2)
      with ih(3) have "cells hp' r = cells hp2 r" by simp
      with c2o[OF r] show "cells hp' r = cells hp r" by simp
    qed
    moreover have "fresh hp \<le> fresh hp'" using ih(2) fr2 by simp
    moreover have "cells hp' c' = buildMerkleTree_loop H (cells hp cur)"
      using ih(1) c2n unfp by simp
    ultimately show ?thesis by (simp add: unf res)
  qed
qed


lemma generateMerkleProof_loop_heap_spec:
  "cells hp cur = xs \<Longrightarrow> cur < fresh hp \<Longrightarrow> pathRef < fresh hp \<Longrightarrow> pathRef \<noteq> cur \<Longrightarrow>
   cells hp pathRef = pth \<Longrightarrow>
   \<exists>hp'. generateMerkleProof_loop_heap H cur idx pathRef hp = Some hp' \<and>
         cells hp' pathRef = generateMerkleProof_loop H xs idx pth \<and>
         fresh hp \<le> fresh hp' \<and>
         (\<forall>r < fresh hp. r \<noteq> pathRef \<longrightarrow> cells hp' r = cells hp r)"
proof (induction H xs idx pth arbitrary: cur hp rule: generateMerkleProof_loop.induct)
  case (1 H xs idx pth)
  note cur = "1.prems"(1) and curlt = "1.prems"(2) and plt = "1.prems"(3)
    and pne = "1.prems"(4) and pc = "1.prems"(5)
  show ?case
  proof (cases "1 < length xs")
    case False
    then show ?thesis
      using cur pc
      by (subst generateMerkleProof_loop_heap.simps, subst generateMerkleProof_loop.simps) simp
  next
    case True
    define pth' where "pth' = (if idx mod 2 = 0 then
                       (if idx + 1 < length xs then pth @ [xs ! (idx + 1)] else pth)
                     else pth @ [xs ! (idx - 1)])"
    define hp1 where "hp1 = (if idx mod 2 = 0 then
                      (if idx + 1 < length (cells hp cur)
                       then array_push pathRef (cells hp cur ! (idx + 1)) hp
                       else hp)
                    else array_push pathRef (cells hp cur ! (idx - 1)) hp)"
    define nxt where "nxt = fresh hp1"
    define hp2 where "hp2 = hp1\<lparr> cells := (cells hp1)(fresh hp1 := []), fresh := Suc (fresh hp1) \<rparr>"
    define hp3 where "hp3 = nextLevel_loop_heap H cur nxt 0 hp2"
    have f1: "fresh hp1 = fresh hp" by (simp add: hp1_def array_push_def)
    have c1p: "cells hp1 pathRef = pth'"
      using cur pc by (simp add: hp1_def pth'_def array_push_def)
    have c1o: "cells hp1 r = cells hp r" if "r \<noteq> pathRef" for r
      using that by (simp add: hp1_def array_push_def)
    have na: "new_array [] hp1 = (nxt, hp2)"
      by (simp add: new_array_def nxt_def hp2_def)
    have ne: "cur \<noteq> nxt" using curlt by (simp add: nxt_def f1)
    have pn: "pathRef \<noteq> nxt" using plt by (simp add: nxt_def f1)
    have c2cur: "cells hp2 cur = xs"
      using ne cur c1o[of cur] pne by (simp add: hp2_def nxt_def)
    have hp3: "hp3 = hp2\<lparr> cells := (cells hp2)(nxt := nextLevel_loop H xs 0 []) \<rparr>"
      using ne c2cur by (simp add: hp3_def nextLevel_loop_heap_pure hp2_def nxt_def)
    have f3: "fresh hp3 = Suc (fresh hp)" by (simp add: hp3 hp2_def f1)
    have c3n: "cells hp3 nxt = nextLevel_loop H xs 0 []" by (simp add: hp3)
    have c3p: "cells hp3 pathRef = pth'"
      using pn c1p by (simp add: hp3 hp2_def nxt_def)
    have c3o: "cells hp3 r = cells hp r" if "r < fresh hp" "r \<noteq> pathRef" for r
      using that c1o[of r] by (simp add: hp3 hp2_def nxt_def f1)
    have unf: "generateMerkleProof_loop_heap H cur idx pathRef hp =
               generateMerkleProof_loop_heap H nxt (idx div 2) pathRef hp3"
      using True cur
      by (subst generateMerkleProof_loop_heap.simps)
         (simp add: Let_def na hp1_def[symmetric] hp3_def)
    have unfp: "generateMerkleProof_loop H xs idx pth =
                generateMerkleProof_loop H (nextLevel_loop H xs 0 []) (idx div 2) pth'"
      using True by (subst generateMerkleProof_loop.simps) (simp add: Let_def pth'_def)
    have "nxt < fresh hp3" "pathRef < fresh hp3"
      using plt by (simp_all add: f3 nxt_def f1)
    from "1.IH"[OF True pth'_def refl c3n this pn c3p]
    obtain hp' where h: "generateMerkleProof_loop_heap H nxt (idx div 2) pathRef hp3 = Some hp'"
      "cells hp' pathRef = generateMerkleProof_loop H (nextLevel_loop H xs 0 []) (idx div 2) pth'"
      "fresh hp3 \<le> fresh hp'"
      "\<forall>r < fresh hp3. r \<noteq> pathRef \<longrightarrow> cells hp' r = cells hp3 r"
      by blast
    have "\<forall>r < fresh hp. r \<noteq> pathRef \<longrightarrow> cells hp' r = cells hp r"
    proof (intro allI impI)
      fix r assume r: "r < fresh hp" "r \<noteq> pathRef"
      then have "r < fresh hp3" by (simp add: f3)
      with h(4) r have "cells hp' r = cells hp3 r" by simp
      with c3o[OF r] show "cells hp' r = cells hp r" by simp
    qed
    moreover have "fresh hp \<le> fresh hp'" using h(3) f3 by simp
    ultimately show ?thesis using h(1,2) unf unfp by simp
  qed
qed

lemma buildMerkleTree_heap_spec:
  assumes "proofHashes < fresh hp"
  shows "fst (buildMerkleTree_heap H proofHashes hp) = buildMerkleTree H (cells hp proofHashes) \<and>
         (\<forall>r < fresh hp. cells (snd (buildMerkleTree_heap H proofHashes hp)) r = cells hp r)"
proof (cases "length (cells hp proofHashes) \<le> 1")
  case True
  then consider "length (cells hp proofHashes) = 0" | "length (cells hp proofHashes) = 1"
    by linarith
  then show ?thesis
  proof cases
    case 1
    then show ?thesis by (simp add: buildMerkleTree_heap_def buildMerkleTree_def)
  next
    case 2
    then show ?thesis by (simp add: buildMerkleTree_heap_def buildMerkleTree_def)
  qed
next
  case False
  define cur where "cur = fresh hp"
  define hp1 where "hp1 = hp\<lparr> cells := (cells hp)(fresh hp := cells hp proofHashes),
                              fresh := Suc (fresh hp) \<rparr>"
  have na: "new_array (cells hp proofHashes) hp = (cur, hp1)"
    by (simp add: new_array_def cur_def hp1_def)
  have lt: "cur < fresh hp1" by (simp add: cur_def hp1_def)
  have c1: "cells hp1 cur = cells hp proofHashes" by (simp add: cur_def hp1_def)
  have c1o: "cells hp1 r = cells hp r" if "r < fresh hp" for r
    using that by (simp add: hp1_def)
  obtain c' hp' where res: "buildMerkleTree_loop_heap H cur hp1 = (c', hp')"
    by (cases "buildMerkleTree_loop_heap H cur hp1")
  from buildMerkleTree_loop_heap_spec[OF lt, of H] res
  have sp: "cells hp' c' = buildMerkleTree_loop H (cells hp1 cur)"
    "\<forall>r < fresh hp1. cells hp' r = cells hp1 r"
    by simp_all
  have fr: "\<forall>r < fresh hp. cells hp' r = cells hp r"
  proof (intro allI impI)
    fix r assume r: "r < fresh hp"
    then have "r < fresh hp1" by (simp add: hp1_def)
    with sp(2) have "cells hp' r = cells hp1 r" by simp
    with c1o[OF r] show "cells hp' r = cells hp r" by simp
  qed
  from False have len: "length (cells hp proofHashes) \<noteq> 0" "length (cells hp proofHashes) \<noteq> 1"
    by linarith+
  have eq: "buildMerkleTree_heap H proofHashes hp = (Inr (cells hp' c' ! 0), hp')"
    unfolding buildMerkleTree_heap_def using len by (simp add: na res)
  have "buildMerkleTree H (cells hp proofHashes) =
          Inr (buildMerkleTree_loop H (cells hp proofHashes) ! 0)"
    unfolding buildMerkleTree_def using len by (simp add: Let_def)
  with eq sp(1) c1 fr show ?thesis by simp
qed

lemma generateMerkleProof_heap_spec:
  assumes "proofHashes < fresh hp"
  shows "\<exists>res hp'. generateMerkleProof_heap H proofHashes leafIndex hp = Some (res, hp') \<and>
           (\<forall>r < fresh hp. cells hp' r = cells hp r) \<and>
           (case res of
              Inl e \<Rightarrow> generateMerkleProof H (cells hp proofHashes) leafIndex = Inl e
            | Inr (pathRef, i, lf) \<Rightarrow>
                generateMerkleProof H (cells hp proofHashes) leafIndex =
                  Inr \<lparr> path = cells hp' pathRef, index = i, leaf = lf \<rparr>)"
proof (cases "leafIndex \<ge> length (cells hp proofHashes)")
  case True
  then show ?thesis
    by (simp add: generateMerkleProof_heap_def generateMerkleProof_def)
next
  case False
  define pathRef where "pathRef = fresh hp"
  define hp1 where "hp1 = hp\<lparr> cells := (cells hp)(fresh hp := []), fresh := Suc (fresh hp) \<rparr>"
  define cur where "cur = Suc (fresh hp)"
  define hp2 where "hp2 = hp1\<lparr> cells := (cells hp1)(Suc (fresh hp) := cells hp proofHashes),
                               fresh := Suc (Suc (fresh hp)) \<rparr>"
  have c1in: "cells hp1 proofHashes = cells hp proofHashes"
    using assms by (simp add: hp1_def)
  have na1: "new_array [] hp = (pathRef, hp1)"
    by (simp add: new_array_def pathRef_def hp1_def)
  have na2: "new_array (cells hp1 proofHashes) hp1 = (cur, hp2)"
    by (simp add: new_array_def cur_def hp2_def c1in) (simp add: hp1_def)
  have pre: "cells hp2 cur = cells hp proofHashes" "cur < fresh hp2" "pathRef < fresh hp2"
    "pathRef \<noteq> cur" "cells hp2 pathRef = []"
    by (simp_all add: hp2_def hp1_def cur_def pathRef_def)
  from generateMerkleProof_loop_heap_spec[OF pre, of H leafIndex]
  obtain hp' where h:
    "generateMerkleProof_loop_heap H cur leafIndex pathRef hp2 = Some hp'"
    "cells hp' pathRef = generateMerkleProof_loop H (cells hp proofHashes) leafIndex []"
    "\<forall>r < fresh hp2. r \<noteq> pathRef \<longrightarrow> cells hp' r = cells hp2 r"
    by blast
  have fr: "\<forall>r < fresh hp. cells hp' r = cells hp r"
  proof (intro allI impI)
    fix r assume r: "r < fresh hp"
    then have "r < fresh hp2" "r \<noteq> pathRef" by (simp_all add: hp2_def pathRef_def)
    with h(3) have "cells hp' r = cells hp2 r" by simp
    also have "\<dots> = cells hp r" using r by (simp add: hp2_def hp1_def)
    finally show "cells hp' r = cells hp r" .
  qed
  then have inp: "cells hp' proofHashes = cells hp proofHashes"
    using assms by simp
  have eq: "generateMerkleProof_heap H proofHashes leafIndex hp =
          Some (Inr (pathRef, leafIndex, cells hp' proofHashes ! leafIndex), hp')"
    using False by (simp add: generateMerkleProof_heap_def na1 na2 h(1))
  show ?thesis
    using False fr h(2) inp by (simp add: eq generateMerkleProof_def)
qed

text \<open>
  \<^bold>\<open>C10\<close>. \<^verbatim>\<open>buildMerkleTree\<close> and \<^verbatim>\<open>generateMerkleProof\<close> leave their input array unchanged:
  after either call the array at the input reference, and every other array that existed
  before the call, holds what it held before. Both work on a copy; \<^verbatim>\<open>generateMerkleProof\<close>
  returns.
\<close>

theorem merkle_functions_leave_input_unchanged:
  assumes "proofHashes < fresh hp"
  shows "cells (snd (buildMerkleTree_heap H proofHashes hp)) proofHashes = cells hp proofHashes \<and>
         (\<forall>r < fresh hp. cells (snd (buildMerkleTree_heap H proofHashes hp)) r = cells hp r) \<and>
         (\<exists>res hp'. generateMerkleProof_heap H proofHashes leafIndex hp = Some (res, hp') \<and>
            cells hp' proofHashes = cells hp proofHashes \<and>
            (\<forall>r < fresh hp. cells hp' r = cells hp r))"
proof -
  from generateMerkleProof_heap_spec[OF assms, of H leafIndex]
  obtain res hp' where g: "generateMerkleProof_heap H proofHashes leafIndex hp = Some (res, hp')"
    "\<forall>r < fresh hp. cells hp' r = cells hp r"
    by blast
  from g(2) assms have "cells hp' proofHashes = cells hp proofHashes" by simp
  with g buildMerkleTree_heap_spec[OF assms, of H] assms show ?thesis by simp
qed

theorem merkle_functions_leave_input_unchanged_witness:
  "(0::nat) < fresh exampleHeap \<and>
   cells exampleHeap 0 = [Atom 1, Atom 2, Atom 3] \<and>
   cells (snd (buildMerkleTree_heap Comb 0 exampleHeap)) 0 = [Atom 1, Atom 2, Atom 3] \<and>
   (\<exists>res hp'. generateMerkleProof_heap Comb 0 2 exampleHeap = Some (res, hp') \<and>
      cells hp' 0 = [Atom 1, Atom 2, Atom 3])"
  using merkle_functions_leave_input_unchanged [where proofHashes = 0 and hp = exampleHeap and H = Comb and leafIndex = 2]
  by (simp add: exampleHeap_def)

end
